theory Spec2Isabelle
  imports Main "HOL-Library.Word"
begin

section \<open>Machine types\<close>

text \<open>
  Go's fixed-width unsigned integers are words: arithmetic wraps around. A
  \<^verbatim>\<open>time.Duration\<close> is an \<^verbatim>\<open>int64\<close> count of nanoseconds: it is kept as the 64 bits
  and read as a signed number with \<^term>\<open>sint\<close>. Go's \<^verbatim>\<open>int\<close> only ever receives values
  converted from \<^verbatim>\<open>uint8\<close> and \<^verbatim>\<open>uint32\<close> fields here, so it is modelled by \<^typ>\<open>int\<close>.
\<close>

type_synonym u8 = "8 word"
type_synonym u32 = "32 word"
type_synonym u64 = "64 word"
type_synonym Duration = "64 word"

text \<open>The conversion \<^verbatim>\<open>time.Duration(x)\<close> of a \<^verbatim>\<open>uint64\<close>: the same 64 bits, now signed.\<close>

definition Duration_of_u64 :: "u64 \<Rightarrow> Duration" where
  "Duration_of_u64 x = x"

definition Nanoseconds :: "Duration \<Rightarrow> int" where
  "Nanoseconds d = sint d"

definition Millisecond :: int where
  "Millisecond = 1000000"

text \<open>
  A \<^verbatim>\<open>time.Time\<close> is an instant of the wall clock, counted in nanoseconds on the
  unbounded time line; \<^verbatim>\<open>Time.Add\<close> moves it by a signed duration.
\<close>

type_synonym Time = int

definition Add :: "Time \<Rightarrow> Duration \<Rightarrow> Time" where
  "Add t d = t + Nanoseconds d"

section \<open>Constants\<close>

definition DirectionIngress :: int where "DirectionIngress = 0"
definition DirectionEgress :: int where "DirectionEgress = 1"
definition NetworkEventsMaxEventsMD :: nat where "NetworkEventsMaxEventsMD = 8"
definition MaxNetworkEvents :: nat where "MaxNetworkEvents = 4"
definition MaxObservedInterfaces :: nat where "MaxObservedInterfaces = 4"
definition IPv6len :: nat where "IPv6len = 16"

section \<open>Slices and panics\<close>

text \<open>
  A Go slice is its visible elements together with the rest of the backing array up to
  the capacity: re-slicing \<^verbatim>\<open>s[0:n]\<close> is checked against the capacity, not the
  length. The nil slice has neither.
\<close>

record 'a slice =
  elems :: "'a list"
  spare :: "'a list"

type_synonym NetIP = "u8 slice"

definition nil_slice :: "'a slice" where
  "nil_slice = \<lparr>elems = [], spare = []\<rparr>"

definition cap :: "'a slice \<Rightarrow> nat" where
  "cap s = length (elems s) + length (spare s)"

datatype panic =
    NilDereference
  | IndexOutOfRange nat nat
  | SliceBoundsOutOfRange nat nat

section \<open>Flow metrics as read by the record builder\<close>

text \<open>
  Modelled from the spec: the declarations of \<^verbatim>\<open>BpfFlowContent\<close> and of the generated
  \<^verbatim>\<open>ebpf\<close> structures are not among the sources. The records below hold the fields
  that \<^verbatim>\<open>NewRecord\<close> reads, with the widths its conversions and its loop counter
  require; all other fields ride in the records' extension. The flow key is opaque
  (a type parameter). A fixed-size array is a list, whose length is the array's size.
\<close>

record BpfObservedIntfT =
  Direction :: u8
  IfIndex :: u32

record BpfDnsRecordT =
  Latency :: u64

record BpfAdditionalMetrics =
  DnsRecord :: BpfDnsRecordT
  FlowRtt :: u64
  ObservedIntf :: "BpfObservedIntfT list"
  NbObservedIntf :: u8

record BpfFlowContent =
  StartMonoTimeTs :: u64
  EndMonoTimeTs :: u64
  IfIndexFirstSeen :: u32
  DirectionFirstSeen :: u8
  AdditionalMetrics :: "BpfAdditionalMetrics option"

section \<open>Process-wide configuration\<close>

type_synonym InterfaceNamer = "int \<Rightarrow> string"

record Globals =
  agentIP :: NetIP
  interfaceNamer :: InterfaceNamer

text \<open>The verb \<^verbatim>\<open>%d\<close> of \<^verbatim>\<open>fmt.Sprintf\<close>: a decimal numeral, with a sign when negative.\<close>

fun show_nat :: "nat \<Rightarrow> string" where
  "show_nat n =
     (if n < 10 then [''0123456789'' ! n]
      else show_nat (n div 10) @ [''0123456789'' ! (n mod 10)])"

declare show_nat.simps [simp del]

definition show_int :: "int \<Rightarrow> string" where
  "show_int i = (if i < 0 then CHR ''-'' # show_nat (nat (- i)) else show_nat (nat i))"

definition namer_unset :: InterfaceNamer where
  "namer_unset ifIndex = ''[namer unset] '' @ show_int ifIndex"

definition initial_globals :: Globals where
  "initial_globals = \<lparr>agentIP = nil_slice, interfaceNamer = namer_unset\<rparr>"

definition SetGlobals :: "NetIP \<Rightarrow> InterfaceNamer \<Rightarrow> Globals \<Rightarrow> Globals" where
  "SetGlobals ip ifaceNamer g = g\<lparr>agentIP := ip, interfaceNamer := ifaceNamer\<rparr>"

section \<open>The record builder\<close>

record IntfDir =
  Interface :: string
  Direction :: int

definition NewIntfDir :: "string \<Rightarrow> int \<Rightarrow> IntfDir" where
  "NewIntfDir intf dir = \<lparr>Interface = intf, Direction = dir\<rparr>"

text \<open>
  \<^verbatim>\<open>NetworkMonitorEventsMD\<close> distinguishes the nil slice (\<^term>\<open>None\<close>) that the
  composite literal leaves from the empty one that \<^verbatim>\<open>make\<close> allocates.
\<close>

record ('k, 'md) Record =
  ID :: 'k
  Metrics :: BpfFlowContent
  TimeFlowStart :: Time
  TimeFlowEnd :: Time
  DNSLatency :: Duration
  Interfaces :: "IntfDir list"
  AgentIP :: NetIP
  TimeFlowRtt :: Duration
  NetworkMonitorEventsMD :: "'md list option"

definition observed :: "InterfaceNamer \<Rightarrow> BpfObservedIntfT \<Rightarrow> IntfDir" where
  "observed namer oi =
     NewIntfDir (namer (uint (IfIndex oi))) (uint (BpfObservedIntfT.Direction oi))"

text \<open>
  The loop \<^verbatim>\<open>for i := uint8(0); i < NbObservedIntf; i++\<close> from counter \<open>i\<close> on, with
  the interfaces appended so far. Indexing the array past its size panics.
\<close>

function observed_loop ::
  "InterfaceNamer \<Rightarrow> BpfAdditionalMetrics \<Rightarrow> u8 \<Rightarrow> IntfDir list \<Rightarrow> panic + IntfDir list"
where
  "observed_loop namer am i ifs =
     (if i < NbObservedIntf am then
        (if unat i < length (ObservedIntf am)
         then observed_loop namer am (i + 1) (ifs @ [observed namer (ObservedIntf am ! unat i)])
         else Inl (IndexOutOfRange (unat i) (length (ObservedIntf am))))
      else Inr ifs)"
  by pat_completeness auto

termination observed_loop
proof (relation "measure (\<lambda>(namer, am, i, ifs). unat (NbObservedIntf am) - unat i)")
  fix namer :: InterfaceNamer and am :: BpfAdditionalMetrics and i :: u8 and ifs :: "IntfDir list"
  assume "i < NbObservedIntf am"
  then have below: "unat i < unat (NbObservedIntf am)"
    by (simp add: word_less_nat_alt)
  moreover have "unat (NbObservedIntf am) < 2 ^ 8"
    using unsigned_less [of "NbObservedIntf am", where 'a = nat] by simp
  ultimately have "unat (i + 1) = Suc (unat i)"
    by (simp add: unat_word_ariths)
  with below
  show "((namer, am, i + 1, ifs @ [observed namer (ObservedIntf am ! unat i)]), namer, am, i, ifs)
          \<in> measure (\<lambda>(namer, am, i, ifs). unat (NbObservedIntf am) - unat i)"
    by simp
qed simp

declare observed_loop.simps [simp del]

text \<open>The local variables \<^verbatim>\<open>startDelta\<close> and \<^verbatim>\<open>endDelta\<close> of \<^verbatim>\<open>NewRecord\<close>.\<close>

definition startDelta :: "u64 \<Rightarrow> BpfFlowContent \<Rightarrow> Duration" where
  "startDelta monotonicCurrentTime m =
     Duration_of_u64 (monotonicCurrentTime - StartMonoTimeTs m)"

definition endDelta :: "u64 \<Rightarrow> BpfFlowContent \<Rightarrow> Duration" where
  "endDelta monotonicCurrentTime m =
     Duration_of_u64 (monotonicCurrentTime - EndMonoTimeTs m)"

definition NewRecord ::
  "Globals \<Rightarrow> 'k \<Rightarrow> BpfFlowContent option \<Rightarrow> Time \<Rightarrow> u64 \<Rightarrow> panic + ('k, 'md) Record"
where
  "NewRecord g key metrics currentTime monotonicCurrentTime =
     (case metrics of
        None \<Rightarrow> Inl NilDereference
      | Some m \<Rightarrow>
          let record = \<lparr>ID = key,
                        Metrics = m,
                        TimeFlowStart = Add currentTime (- startDelta monotonicCurrentTime m),
                        TimeFlowEnd = Add currentTime (- endDelta monotonicCurrentTime m),
                        DNSLatency = 0,
                        Interfaces =
                          [NewIntfDir (interfaceNamer g (uint (IfIndexFirstSeen m)))
                             (uint (DirectionFirstSeen m))],
                        AgentIP = agentIP g,
                        TimeFlowRtt = 0,
                        NetworkMonitorEventsMD = None\<rparr>
          in (case AdditionalMetrics m of
                None \<Rightarrow> Inr (record\<lparr>NetworkMonitorEventsMD := Some []\<rparr>)
              | Some am \<Rightarrow>
                  (case observed_loop (interfaceNamer g) am 0 (Interfaces record) of
                     Inl p \<Rightarrow> Inl p
                   | Inr ifs \<Rightarrow>
                       let record = record\<lparr>Interfaces := ifs\<rparr>;
                           record =
                             (if FlowRtt am \<noteq> 0
                              then record\<lparr>TimeFlowRtt := Duration_of_u64 (FlowRtt am)\<rparr>
                              else record);
                           record =
                             (if Latency (DnsRecord am) \<noteq> 0
                              then record\<lparr>DNSLatency := Duration_of_u64 (Latency (DnsRecord am))\<rparr>
                              else record)
                       in Inr (record\<lparr>NetworkMonitorEventsMD := Some []\<rparr>))))"

section \<open>Event metadata\<close>

text \<open>
  \<^verbatim>\<open>reflect.DeepEqual\<close> on two byte arrays of one type: they are deeply equal when
  their corresponding elements are.
\<close>

fun DeepEqual :: "u8 list \<Rightarrow> u8 list \<Rightarrow> bool" where
  "DeepEqual [] [] = True"
| "DeepEqual (x # xs) (y # ys) = (x = y \<and> DeepEqual xs ys)"
| "DeepEqual _ _ = False"

fun networkEventsMDExist :: "u8 list list \<Rightarrow> u8 list \<Rightarrow> bool" where
  "networkEventsMDExist [] md = False"
| "networkEventsMDExist (e # events) md =
     (if DeepEqual e md then True else networkEventsMDExist events md)"

fun AllZerosMetaData :: "u8 list \<Rightarrow> bool" where
  "AllZerosMetaData [] = True"
| "AllZerosMetaData (v # s) = (if v \<noteq> 0 then False else AllZerosMetaData s)"

section \<open>Addresses\<close>

text \<open>An \<^verbatim>\<open>IPAddr\<close> is an array of \<^term>\<open>IPv6len\<close> bytes.\<close>

type_synonym IPAddr = "u8 list"

definition IP :: "IPAddr \<Rightarrow> NetIP" where
  "IP ia = \<lparr>elems = ia, spare = []\<rparr>"

text \<open>
  \<^verbatim>\<open>copy(arr[:], netIP[0:net.IPv6len])\<close> into a zeroed array: the slice expression
  panics when the capacity of \<open>netIP\<close> is below 16.
\<close>

definition IPAddrFromNetIP :: "NetIP \<Rightarrow> panic + IPAddr" where
  "IPAddrFromNetIP netIP =
     (if cap netIP < IPv6len then Inl (SliceBoundsOutOfRange IPv6len (cap netIP))
      else Inr (take IPv6len (elems netIP @ spare netIP)))"

section \<open>The raw binary decoder\<close>

text \<open>
  \<^verbatim>\<open>ReadFrom\<close> hands the reader to \<^verbatim>\<open>binary.Read\<close> of Go's standard library, which
  reads the record's size in bytes with \<^verbatim>\<open>io.ReadFull\<close> and then decodes them. The
  errors of package \<^verbatim>\<open>io\<close> are the two sentinels and whatever else the source reports.
\<close>

datatype io_error = EOF | ErrUnexpectedEOF | OtherError string

text \<open>
  An \<^verbatim>\<open>io.Reader\<close> is the script of what its successive \<^verbatim>\<open>Read\<close> calls deliver: some
  bytes, possibly with an error. A call never delivers more than the buffer holds, the
  rest of a chunk stays for the next call. After the script the source is at its end
  and reports \<^verbatim>\<open>io.EOF\<close>. (A source that forever delivers nothing without an error, on
  which \<^verbatim>\<open>io.ReadFull\<close> would not return, is not among these.)
\<close>

type_synonym Reader = "(u8 list \<times> io_error option) list"

fun Read :: "nat \<Rightarrow> Reader \<Rightarrow> (u8 list \<times> io_error option) \<times> Reader" where
  "Read k [] = (([], Some EOF), [])"
| "Read k ((c, e) # rest) =
     (if length c \<le> k then ((c, e), rest)
      else ((take k c, None), (drop k c, e) # rest))"

text \<open>
  The loop of \<^verbatim>\<open>io.ReadAtLeast\<close>, \<^verbatim>\<open>for n < min && err == nil\<close>, on the bytes read so
  far; \<^verbatim>\<open>io.ReadFull\<close> runs it with the size of the buffer as the minimum and then
  clears the error of a full read, and turns the end of input after a partial read
  into \<^verbatim>\<open>io.ErrUnexpectedEOF\<close>.
\<close>

function ReadAtLeast_loop ::
  "nat \<Rightarrow> Reader \<Rightarrow> u8 list \<Rightarrow> u8 list \<times> io_error option \<times> Reader"
where
  "ReadAtLeast_loop min_n r buf =
     (if length buf < min_n then
        (case Read (min_n - length buf) r of
           ((c, None), r') \<Rightarrow> ReadAtLeast_loop min_n r' (buf @ c)
         | ((c, Some err), r') \<Rightarrow> (buf @ c, Some err, r'))
      else (buf, None, r))"
  by pat_completeness auto
termination
  apply (relation "measure (\<lambda>(min_n, r, buf). (min_n - length buf) + length r)")
   apply simp
  subgoal for min_n r buf
    by (cases r) (auto split: if_splits)
  done

declare ReadAtLeast_loop.simps [simp del]

definition ReadFull :: "nat \<Rightarrow> Reader \<Rightarrow> u8 list \<times> io_error option \<times> Reader" where
  "ReadFull n r =
     (case ReadAtLeast_loop n r [] of
        (buf, err, r') \<Rightarrow>
          if n \<le> length buf then (buf, None, r')
          else if 0 < length buf \<and> err = Some EOF then (buf, Some ErrUnexpectedEOF, r')
          else (buf, err, r'))"

text \<open>
  Modelled from the spec: the layout of \<^verbatim>\<open>RawRecord\<close> (the generated
  \<^verbatim>\<open>ebpf.BpfFlowRecordT\<close>) is not among the sources. It is a fixed-size record: its
  size in bytes, its decoding from that many bytes in a given byte order and its zero
  value are parameters.
\<close>

datatype ByteOrder = LittleEndian | BigEndian

record 'r layout =
  size_of :: nat
  decode :: "ByteOrder \<Rightarrow> u8 list \<Rightarrow> 'r"
  zero_value :: 'r

text \<open>
  \<^verbatim>\<open>binary.Read\<close> into \<open>data\<close>: on an error of \<^verbatim>\<open>io.ReadFull\<close> it returns the error
  and leaves \<open>data\<close> as it was.
\<close>

definition binary_Read ::
  "Reader \<Rightarrow> ByteOrder \<Rightarrow> 'r layout \<Rightarrow> 'r \<Rightarrow> 'r \<times> io_error option \<times> Reader" where
  "binary_Read r order L data =
     (case ReadFull (size_of L) r of
        (bs, Some err, r') \<Rightarrow> (data, Some err, r')
      | (bs, None, r') \<Rightarrow> (decode L order bs, None, r'))"

definition ReadFrom :: "'r layout \<Rightarrow> Reader \<Rightarrow> 'r \<times> io_error option \<times> Reader" where
  "ReadFrom L reader =
     (let fr = zero_value L;
          (fr, err, reader) = binary_Read reader LittleEndian L fr
      in (fr, err, reader))"

section \<open>Notions of the specification\<close>

text \<open>
  What a source has to offer: the bytes it supplies until it ends or fails, the error
  it ends or fails with, and all the bytes it still holds.
\<close>

fun supplied :: "Reader \<Rightarrow> u8 list" where
  "supplied [] = []"
| "supplied ((c, None) # rest) = c @ supplied rest"
| "supplied ((c, Some err) # rest) = c"

fun first_error :: "Reader \<Rightarrow> io_error" where
  "first_error [] = EOF"
| "first_error ((c, None) # rest) = first_error rest"
| "first_error ((c, Some err) # rest) = err"

definition remaining :: "Reader \<Rightarrow> u8 list" where
  "remaining r = concat (map fst r)"

text \<open>The entry that seeds the interface observations: the interface first seen.\<close>

definition first_seen :: "Globals \<Rightarrow> BpfFlowContent \<Rightarrow> IntfDir" where
  "first_seen g m =
     NewIntfDir (interfaceNamer g (uint (IfIndexFirstSeen m))) (uint (DirectionFirstSeen m))"

section \<open>Event metadata: membership and all-zero checks\<close>

lemma DeepEqual_eq: "DeepEqual xs ys = (xs = ys)"
  by (induction xs ys rule: DeepEqual.induct) auto

lemma networkEventsMDExist_set: "networkEventsMDExist events md = (md \<in> set events)"
  by (induction events) (auto simp: DeepEqual_eq)

lemma AllZerosMetaData_set: "AllZerosMetaData s = (set s \<subseteq> {0})"
  by (induction s) auto

text \<open>
  C6: the membership check is true exactly when the candidate tag equals, byte for
  byte, some entry of the existing sequence; it is false for an empty sequence (and so
  when no entry matches).
\<close>

theorem membership_check:
  "networkEventsMDExist events md = (md \<in> set events) \<and> \<not> networkEventsMDExist [] md"
  by (simp add: networkEventsMDExist_set)

theorem membership_check_witness:
  "networkEventsMDExist
     [[1, 2, 3, 4, 5, 6, 7, 8], [0, 0, 0, 0, 0, 0, 0, 0], [9, 9, 9, 9, 9, 9, 9, 9],
      [0, 0, 0, 0, 0, 0, 0, 0]] [9, 9, 9, 9, 9, 9, 9, 9] \<and>
   \<not> networkEventsMDExist
     [[1, 2, 3, 4, 5, 6, 7, 8], [0, 0, 0, 0, 0, 0, 0, 0], [9, 9, 9, 9, 9, 9, 9, 9],
      [0, 0, 0, 0, 0, 0, 0, 0]] [9, 9, 9, 9, 9, 9, 9, 1]"
  using membership_check
    [of "[[1, 2, 3, 4, 5, 6, 7, 8], [0, 0, 0, 0, 0, 0, 0, 0], [9, 9, 9, 9, 9, 9, 9, 9],
          [0, 0, 0, 0, 0, 0, 0, 0]]" "[9, 9, 9, 9, 9, 9, 9, 9]"]
    membership_check
    [of "[[1, 2, 3, 4, 5, 6, 7, 8], [0, 0, 0, 0, 0, 0, 0, 0], [9, 9, 9, 9, 9, 9, 9, 9],
          [0, 0, 0, 0, 0, 0, 0, 0]]" "[9, 9, 9, 9, 9, 9, 9, 1]"]
  by simp

text \<open>
  C7: the all-zero check on an 8-byte tag is true exactly when every byte of the tag
  is zero.
\<close>

theorem all_zero_check:
  "length s = NetworkEventsMaxEventsMD \<Longrightarrow>
     AllZerosMetaData s = (\<forall>i < NetworkEventsMaxEventsMD. s ! i = 0)"
  by (auto simp: AllZerosMetaData_set in_set_conv_nth subset_iff)

theorem all_zero_check_witness:
  "AllZerosMetaData [0, 0, 0, 0, 0, 0, 0, 0] \<and> \<not> AllZerosMetaData [0, 0, 0, 0, 0, 7, 0, 0]"
  using all_zero_check [of "[0, 0, 0, 0, 0, 0, 0, 0]"]
    all_zero_check [of "[0, 0, 0, 0, 0, 7, 0, 0]"]
  by (simp add: NetworkEventsMaxEventsMD_def)

section \<open>Addresses: the round trip\<close>

text \<open>
  C8: converting a 16-byte address to its \<^verbatim>\<open>net.IP\<close> form and back gives the same 16
  bytes, for v4-mapped and for native IPv6 values alike.
\<close>

theorem address_round_trip:
  "length ia = IPv6len \<Longrightarrow> IPAddrFromNetIP (IP ia) = Inr ia"
  by (simp add: IPAddrFromNetIP_def IP_def cap_def)

theorem address_round_trip_witness:
  "IPAddrFromNetIP (IP [0, 0, 0, 0, 0, 0, 0, 0, 0, 0, 255, 255, 192, 168, 1, 7])
     = Inr [0, 0, 0, 0, 0, 0, 0, 0, 0, 0, 255, 255, 192, 168, 1, 7] \<and>
   IPAddrFromNetIP (IP [32, 1, 13, 184, 0, 0, 0, 0, 0, 0, 0, 0, 0, 0, 0, 1])
     = Inr [32, 1, 13, 184, 0, 0, 0, 0, 0, 0, 0, 0, 0, 0, 0, 1]"
  using address_round_trip [of "[0, 0, 0, 0, 0, 0, 0, 0, 0, 0, 255, 255, 192, 168, 1, 7]"]
    address_round_trip [of "[32, 1, 13, 184, 0, 0, 0, 0, 0, 0, 0, 0, 0, 0, 0, 1]"]
  by (simp add: IPv6len_def)

section \<open>The loop over the additional interfaces\<close>

lemma unat_succ_below: "i < (n :: u8) \<Longrightarrow> unat (i + 1) = Suc (unat i)"
proof -
  assume "i < n"
  then have "unat i < unat n"
    by (simp add: word_less_nat_alt)
  moreover have "unat n < 2 ^ 8"
    using unsigned_less [of n, where 'a = nat] by simp
  ultimately have "unat i + 1 < 2 ^ 8"
    by simp
  then show ?thesis
    by (simp add: unat_word_ariths)
qed

lemma observed_loop_result:
  "observed_loop namer am i ifs =
     (if i < NbObservedIntf am \<and> length (ObservedIntf am) < unat (NbObservedIntf am)
      then Inl (IndexOutOfRange (max (unat i) (length (ObservedIntf am))) (length (ObservedIntf am)))
      else Inr (ifs @ map (observed namer)
                  (take (unat (NbObservedIntf am) - unat i) (drop (unat i) (ObservedIntf am)))))"
proof (induction namer am i ifs rule: observed_loop.induct)
  case (1 namer am i ifs)
  show ?case
  proof (cases "i < NbObservedIntf am")
    case False
    then have "unat (NbObservedIntf am) - unat i = 0"
      by (simp add: word_less_nat_alt)
    with False show ?thesis
      by (subst observed_loop.simps) simp
  next
    case below: True
    then have lt: "unat i < unat (NbObservedIntf am)"
      by (simp add: word_less_nat_alt)
    have suc: "unat (i + 1) = Suc (unat i)"
      using below by (rule unat_succ_below)
    show ?thesis
    proof (cases "unat i < length (ObservedIntf am)")
      case False
      with below lt show ?thesis
        by (subst observed_loop.simps) (simp add: max_def)
    next
      case True
      note IH = "1.IH" [OF below True]
      show ?thesis
      proof (cases "length (ObservedIntf am) < unat (NbObservedIntf am)")
        case long: True
        with True have "unat (i + 1) < unat (NbObservedIntf am)"
          by (simp add: suc)
        then have "i + 1 < NbObservedIntf am"
          by (simp add: word_less_nat_alt)
        with long below True show ?thesis
          by (subst observed_loop.simps) (simp add: IH suc max_def)
      next
        case False
        have "take (unat (NbObservedIntf am) - unat i) (drop (unat i) (ObservedIntf am)) =
                ObservedIntf am ! unat i #
                take (unat (NbObservedIntf am) - Suc (unat i)) (drop (Suc (unat i)) (ObservedIntf am))"
          using lt True
          by (metis Cons_nth_drop_Suc Suc_diff_Suc take_Suc_Cons)
        with False below True show ?thesis
          by (subst observed_loop.simps) (simp add: IH suc)
      qed
    qed
  qed
qed

lemma observed_loop_from_0:
  "observed_loop namer am 0 ifs =
     (if length (ObservedIntf am) < unat (NbObservedIntf am)
      then Inl (IndexOutOfRange (length (ObservedIntf am)) (length (ObservedIntf am)))
      else Inr (ifs @ map (observed namer) (take (unat (NbObservedIntf am)) (ObservedIntf am))))"
proof -
  have "length (ObservedIntf am) < unat (NbObservedIntf am) \<Longrightarrow> 0 < NbObservedIntf am"
    by (simp add: word_less_nat_alt)
  then show ?thesis
    by (auto simp: observed_loop_result)
qed

lemma NewRecord_nil: "NewRecord g key None currentTime now = Inl NilDereference"
  by (simp add: NewRecord_def)

lemma NewRecord_plain:
  "AdditionalMetrics m = None \<Longrightarrow>
   NewRecord g key (Some m) currentTime now =
     Inr \<lparr>ID = key, Metrics = m,
          TimeFlowStart = Add currentTime (- startDelta now m),
          TimeFlowEnd = Add currentTime (- endDelta now m),
          DNSLatency = 0,
          Interfaces = [first_seen g m],
          AgentIP = agentIP g,
          TimeFlowRtt = 0,
          NetworkMonitorEventsMD = Some []\<rparr>"
  by (simp add: NewRecord_def first_seen_def)

lemma NewRecord_additional:
  "AdditionalMetrics m = Some am \<Longrightarrow>
   NewRecord g key (Some m) currentTime now =
     (if length (ObservedIntf am) < unat (NbObservedIntf am)
      then Inl (IndexOutOfRange (length (ObservedIntf am)) (length (ObservedIntf am)))
      else Inr \<lparr>ID = key, Metrics = m,
          TimeFlowStart = Add currentTime (- startDelta now m),
          TimeFlowEnd = Add currentTime (- endDelta now m),
          DNSLatency = Duration_of_u64 (Latency (DnsRecord am)),
          Interfaces = first_seen g m #
            map (observed (interfaceNamer g)) (take (unat (NbObservedIntf am)) (ObservedIntf am)),
          AgentIP = agentIP g,
          TimeFlowRtt = Duration_of_u64 (FlowRtt am),
          NetworkMonitorEventsMD = Some []\<rparr>)"
  by (simp add: NewRecord_def first_seen_def observed_loop_from_0 Let_def Duration_of_u64_def)

section \<open>Time reconstruction\<close>

lemma sint_neg_delta:
  fixes now t :: u64
  assumes "t \<le> now" and "uint now - uint t \<le> 2 ^ 63"
  shows "sint (- (now - t)) = - (uint now - uint t)"
proof -
  have range: "0 \<le> uint now - uint t"
    using assms(1) by (simp add: word_le_def)
  have "- (now - t) = word_of_int (- (uint now - uint t))"
    by simp
  then have "sint (- (now - t)) = signed_take_bit 63 (- (uint now - uint t))"
    by (simp only: sint_sbintrunc') simp
  also have "\<dots> = - (uint now - uint t)"
    using range assms(2) by (intro signed_take_bit_int_eq_self) simp_all
  finally show ?thesis .
qed

text \<open>
  C1, as amended: for a record timestamp \<open>t \<le> monotonicNow\<close> whose distance
  \<open>monotonicNow - t\<close> is at most \<open>2 ^ 63\<close> nanoseconds (what a signed 64-bit duration
  can take back), the builder sets the absolute time to
  \<open>currentTime - (monotonicNow - t)\<close>, which is \<open>\<le> currentTime\<close>; this holds for the
  flow-start and the flow-end timestamp independently of each other.
\<close>

theorem time_reconstruction:
  fixes r :: "('k, 'md) Record"
  assumes "NewRecord g key (Some m) currentTime now = Inr r"
  shows "(StartMonoTimeTs m \<le> now \<and> uint now - uint (StartMonoTimeTs m) \<le> 2 ^ 63 \<longrightarrow>
            TimeFlowStart r = currentTime - (uint now - uint (StartMonoTimeTs m)) \<and>
            TimeFlowStart r \<le> currentTime) \<and>
         (EndMonoTimeTs m \<le> now \<and> uint now - uint (EndMonoTimeTs m) \<le> 2 ^ 63 \<longrightarrow>
            TimeFlowEnd r = currentTime - (uint now - uint (EndMonoTimeTs m)) \<and>
            TimeFlowEnd r \<le> currentTime)"
proof -
  have times: "TimeFlowStart r = Add currentTime (- startDelta now m) \<and>
               TimeFlowEnd r = Add currentTime (- endDelta now m)"
  proof (cases "AdditionalMetrics m")
    case None
    with assms show ?thesis
      by (auto simp: NewRecord_plain)
  next
    case (Some am)
    with assms show ?thesis
      by (auto simp: NewRecord_additional split: if_splits)
  qed
  have "t \<le> now \<Longrightarrow> uint now - uint t \<le> 2 ^ 63 \<Longrightarrow>
          Add currentTime (- Duration_of_u64 (now - t)) = currentTime - (uint now - uint t) \<and>
          Add currentTime (- Duration_of_u64 (now - t)) \<le> currentTime" for t
    using sint_neg_delta [of t now]
    by (simp add: Add_def Nanoseconds_def Duration_of_u64_def word_le_def)
  with times show ?thesis
    by (simp add: startDelta_def endDelta_def word_le_def)
qed


theorem time_reconstruction_witness:
  "\<exists>r :: (unit, unit) Record.
     NewRecord initial_globals ()
       (Some \<lparr>StartMonoTimeTs = 100, EndMonoTimeTs = 300, IfIndexFirstSeen = 3,
              DirectionFirstSeen = 0, AdditionalMetrics = None\<rparr>) 1000 500 = Inr r \<and>
     TimeFlowStart r = 600 \<and> TimeFlowStart r \<le> 1000 \<and>
     TimeFlowEnd r = 800 \<and> TimeFlowEnd r \<le> 1000"
proof -
  let ?m = "\<lparr>StartMonoTimeTs = 100, EndMonoTimeTs = 300, IfIndexFirstSeen = 3,
              DirectionFirstSeen = 0, AdditionalMetrics = None\<rparr>"
  obtain r :: "(unit, unit) Record"
    where built: "NewRecord initial_globals () (Some ?m) 1000 500 = Inr r"
    by (simp add: NewRecord_plain)
  from time_reconstruction [OF built]
  have "TimeFlowStart r = 600 \<and> TimeFlowStart r \<le> 1000 \<and>
        TimeFlowEnd r = 800 \<and> TimeFlowEnd r \<le> 1000"
    by simp
  with built show ?thesis
    by blast
qed

text \<open>
  The claim without the bound on the distance fails: with \<open>t = 0\<close> and
  \<open>monotonicNow = 2 ^ 64 - 1\<close> the delta, read as a signed duration, is \<open>-1\<close> ns, and
  the flow start lands one nanosecond after \<open>currentTime\<close>.
\<close>

theorem time_reconstruction_counterexample:
  "(0 :: u64) \<le> 18446744073709551615 \<and>
   map_sum id TimeFlowStart
     (NewRecord initial_globals ()
        (Some \<lparr>StartMonoTimeTs = 0, EndMonoTimeTs = 0, IfIndexFirstSeen = 3,
               DirectionFirstSeen = 0, AdditionalMetrics = None\<rparr>)
        1000 18446744073709551615 :: panic + (unit, unit) Record) = Inr 1001 \<and>
   (1001 :: int) \<noteq> 1000 - (uint (18446744073709551615 :: u64) - uint (0 :: u64)) \<and>
   \<not> (1001 :: int) \<le> 1000"
  by (simp add: NewRecord_plain startDelta_def Duration_of_u64_def Add_def Nanoseconds_def)

section \<open>The interface observations\<close>

text \<open>
  C2: when the additional metrics are present and record \<open>n\<close> additional interfaces,
  the built record has exactly \<open>n + 1\<close> observations: the first-seen entry, then the
  \<open>n\<close> additional ones in stored order, duplicates kept. A record is built whenever
  \<open>n\<close> is within the array's capacity.
\<close>

theorem additional_interfaces:
  assumes "AdditionalMetrics m = Some am"
    and "length (ObservedIntf am) = MaxObservedInterfaces"
  shows "(unat (NbObservedIntf am) \<le> MaxObservedInterfaces \<longrightarrow>
            (\<exists>r :: ('k, 'md) Record. NewRecord g key (Some m) currentTime now = Inr r)) \<and>
         (\<forall>r :: ('k, 'md) Record. NewRecord g key (Some m) currentTime now = Inr r \<longrightarrow>
            length (Interfaces r) = unat (NbObservedIntf am) + 1 \<and>
            Interfaces r =
              NewIntfDir (interfaceNamer g (uint (IfIndexFirstSeen m))) (uint (DirectionFirstSeen m)) #
              map (observed (interfaceNamer g)) (take (unat (NbObservedIntf am)) (ObservedIntf am)))"
  using assms
  by (auto simp: NewRecord_additional first_seen_def split: if_splits)

theorem additional_interfaces_witness:
  "\<exists>r :: (unit, unit) Record.
     NewRecord initial_globals ()
       (Some \<lparr>StartMonoTimeTs = 100, EndMonoTimeTs = 300, IfIndexFirstSeen = 3,
              DirectionFirstSeen = 0,
              AdditionalMetrics = Some \<lparr>DnsRecord = \<lparr>Latency = 0\<rparr>, FlowRtt = 0,
                ObservedIntf =
                  [\<lparr>BpfObservedIntfT.Direction = 1, IfIndex = 7\<rparr>,
                   \<lparr>BpfObservedIntfT.Direction = 1, IfIndex = 7\<rparr>,
                   \<lparr>BpfObservedIntfT.Direction = 0, IfIndex = 0\<rparr>,
                   \<lparr>BpfObservedIntfT.Direction = 0, IfIndex = 0\<rparr>],
                NbObservedIntf = 2\<rparr>\<rparr>) 1000 500 = Inr r \<and>
     length (Interfaces r) = 3 \<and>
     Interfaces r =
       [\<lparr>Interface = ''[namer unset] 3'', Direction = 0\<rparr>,
        \<lparr>Interface = ''[namer unset] 7'', Direction = 1\<rparr>,
        \<lparr>Interface = ''[namer unset] 7'', Direction = 1\<rparr>]"
proof -
  let ?am = "\<lparr>DnsRecord = \<lparr>Latency = 0\<rparr>, FlowRtt = 0,
                ObservedIntf =
                  [\<lparr>BpfObservedIntfT.Direction = 1, IfIndex = 7\<rparr>,
                   \<lparr>BpfObservedIntfT.Direction = 1, IfIndex = 7\<rparr>,
                   \<lparr>BpfObservedIntfT.Direction = 0, IfIndex = 0\<rparr>,
                   \<lparr>BpfObservedIntfT.Direction = 0, IfIndex = 0\<rparr>],
                NbObservedIntf = 2\<rparr>"
  let ?m = "\<lparr>StartMonoTimeTs = 100, EndMonoTimeTs = 300, IfIndexFirstSeen = 3,
              DirectionFirstSeen = 0, AdditionalMetrics = Some ?am\<rparr>"
  have present: "AdditionalMetrics ?m = Some ?am"
    by simp
  have size: "length (ObservedIntf ?am) = MaxObservedInterfaces"
    by (simp add: MaxObservedInterfaces_def)
  have count: "unat (NbObservedIntf ?am) \<le> MaxObservedInterfaces"
    by (simp add: MaxObservedInterfaces_def)
  note claim = additional_interfaces [OF present size,
      where g = initial_globals and key = "()" and currentTime = 1000 and now = 500,
      where ?'md = unit]
  from claim count obtain r :: "(unit, unit) Record"
    where built: "NewRecord initial_globals () (Some ?m) 1000 500 = Inr r"
    by blast
  with claim
  have "length (Interfaces r) = unat (NbObservedIntf ?am) + 1 \<and>
        Interfaces r =
          NewIntfDir (interfaceNamer initial_globals (uint (IfIndexFirstSeen ?m)))
            (uint (DirectionFirstSeen ?m)) #
          map (observed (interfaceNamer initial_globals))
            (take (unat (NbObservedIntf ?am)) (ObservedIntf ?am))"
    by blast
  then have "length (Interfaces r) = 3 \<and>
     Interfaces r =
       [\<lparr>Interface = ''[namer unset] 3'', Direction = 0\<rparr>,
        \<lparr>Interface = ''[namer unset] 7'', Direction = 1\<rparr>,
        \<lparr>Interface = ''[namer unset] 7'', Direction = 1\<rparr>]"
    by (simp add: initial_globals_def namer_unset_def show_int_def show_nat.simps
        NewIntfDir_def observed_def)
  with built show ?thesis
    by blast
qed

text \<open>
  C3: every record the builder returns has at least one interface observation, and the
  first one is the first-seen pair \<open>{namer(firstSeenIndex), firstSeenDirection}\<close>; without
  additional metrics the builder returns a record with exactly that entry. The sequence
  of network-event metadata of a returned record is empty (and not nil).
\<close>

theorem first_seen_always:
  "(AdditionalMetrics m = None \<longrightarrow>
      (\<exists>r :: ('k, 'md) Record. NewRecord g key (Some m) currentTime now = Inr r \<and>
         Interfaces r = [first_seen g m])) \<and>
   (\<forall>r :: ('k, 'md) Record. NewRecord g key (Some m) currentTime now = Inr r \<longrightarrow>
      1 \<le> length (Interfaces r) \<and>
      hd (Interfaces r) =
        NewIntfDir (interfaceNamer g (uint (IfIndexFirstSeen m))) (uint (DirectionFirstSeen m)) \<and>
      NetworkMonitorEventsMD r = Some [])"
proof (cases "AdditionalMetrics m")
  case None
  then show ?thesis
    by (auto simp: NewRecord_plain first_seen_def)
next
  case (Some am)
  then show ?thesis
    by (auto simp: NewRecord_additional first_seen_def split: if_splits)
qed

theorem first_seen_always_witness:
  "\<exists>r :: (unit, unit) Record.
     NewRecord initial_globals ()
       (Some \<lparr>StartMonoTimeTs = 100, EndMonoTimeTs = 300, IfIndexFirstSeen = 3,
              DirectionFirstSeen = 0, AdditionalMetrics = None\<rparr>) 1000 500 = Inr r \<and>
     Interfaces r = [\<lparr>Interface = ''[namer unset] 3'', Direction = DirectionIngress\<rparr>] \<and>
     DNSLatency r = 0 \<and> TimeFlowRtt r = 0 \<and> NetworkMonitorEventsMD r = Some []"
proof -
  let ?m = "\<lparr>StartMonoTimeTs = 100, EndMonoTimeTs = 300, IfIndexFirstSeen = 3,
              DirectionFirstSeen = 0, AdditionalMetrics = None\<rparr>"
  note claim = first_seen_always [of ?m initial_globals "()" 1000 500, where ?'md = unit]
  then obtain r :: "(unit, unit) Record"
    where built: "NewRecord initial_globals () (Some ?m) 1000 500 = Inr r"
      and seed: "Interfaces r = [first_seen initial_globals ?m]"
    by auto
  from claim built have md: "NetworkMonitorEventsMD r = Some []"
    by blast
  from built have "DNSLatency r = 0 \<and> TimeFlowRtt r = 0"
    by (auto simp: NewRecord_plain)
  moreover from seed
  have "Interfaces r = [\<lparr>Interface = ''[namer unset] 3'', Direction = DirectionIngress\<rparr>]"
    by (simp add: first_seen_def initial_globals_def namer_unset_def show_int_def
        show_nat.simps NewIntfDir_def DirectionIngress_def)
  ultimately show ?thesis
    using built md by blast
qed

section \<open>Round-trip time and DNS latency\<close>

text \<open>
  C4: with additional metrics present, \<^verbatim>\<open>TimeFlowRtt\<close> of the built record is the RTT
  field as a nanosecond duration when that field is not zero and stays zero when it is;
  \<^verbatim>\<open>DNSLatency\<close> follows the DNS-latency field in the same way. An RTT field of
  1500000 ns gives 1.5 ms.
\<close>

theorem rtt_and_dns_latency:
  fixes r :: "('k, 'md) Record"
  assumes "NewRecord g key (Some m) currentTime now = Inr r"
    and "AdditionalMetrics m = Some am"
  shows "TimeFlowRtt r = (if FlowRtt am \<noteq> 0 then Duration_of_u64 (FlowRtt am) else 0) \<and>
         DNSLatency r =
           (if Latency (DnsRecord am) \<noteq> 0 then Duration_of_u64 (Latency (DnsRecord am)) else 0) \<and>
         (FlowRtt am = 1500000 \<longrightarrow> 2 * Nanoseconds (TimeFlowRtt r) = 3 * Millisecond)"
  using assms
  by (auto simp: NewRecord_additional Duration_of_u64_def Nanoseconds_def Millisecond_def
      split: if_splits)

theorem rtt_and_dns_latency_witness:
  "\<exists>r :: (unit, unit) Record.
     NewRecord initial_globals ()
       (Some \<lparr>StartMonoTimeTs = 100, EndMonoTimeTs = 300, IfIndexFirstSeen = 3,
              DirectionFirstSeen = 0,
              AdditionalMetrics = Some \<lparr>DnsRecord = \<lparr>Latency = 0\<rparr>, FlowRtt = 1500000,
                ObservedIntf =
                  [\<lparr>BpfObservedIntfT.Direction = 0, IfIndex = 0\<rparr>,
                   \<lparr>BpfObservedIntfT.Direction = 0, IfIndex = 0\<rparr>,
                   \<lparr>BpfObservedIntfT.Direction = 0, IfIndex = 0\<rparr>,
                   \<lparr>BpfObservedIntfT.Direction = 0, IfIndex = 0\<rparr>],
                NbObservedIntf = 0\<rparr>\<rparr>) 1000 500 = Inr r \<and>
     2 * Nanoseconds (TimeFlowRtt r) = 3 * Millisecond \<and> DNSLatency r = 0"
proof -
  let ?am = "\<lparr>DnsRecord = \<lparr>Latency = 0\<rparr>, FlowRtt = 1500000,
                ObservedIntf =
                  [\<lparr>BpfObservedIntfT.Direction = 0, IfIndex = 0\<rparr>,
                   \<lparr>BpfObservedIntfT.Direction = 0, IfIndex = 0\<rparr>,
                   \<lparr>BpfObservedIntfT.Direction = 0, IfIndex = 0\<rparr>,
                   \<lparr>BpfObservedIntfT.Direction = 0, IfIndex = 0\<rparr>],
                NbObservedIntf = 0\<rparr>"
  let ?m = "\<lparr>StartMonoTimeTs = 100, EndMonoTimeTs = 300, IfIndexFirstSeen = 3,
              DirectionFirstSeen = 0, AdditionalMetrics = Some ?am\<rparr>"
  have present: "AdditionalMetrics ?m = Some ?am"
    by simp
  obtain r :: "(unit, unit) Record"
    where built: "NewRecord initial_globals () (Some ?m) 1000 500 = Inr r"
    by (simp add: NewRecord_additional [OF present])
  from rtt_and_dns_latency [OF built present]
  have "2 * Nanoseconds (TimeFlowRtt r) = 3 * Millisecond \<and> DNSLatency r = 0"
    by (simp add: Duration_of_u64_def Nanoseconds_def Millisecond_def)
  with built show ?thesis
    by blast
qed

section \<open>A record timestamp past the monotonic reference\<close>

lemma signed_take_bit_63_neg:
  fixes d :: int
  assumes "0 \<le> d" and "d \<le> 2 ^ 63"
  shows "signed_take_bit 63 (- d) = - d"
  using assms by (intro signed_take_bit_int_eq_self) simp_all

lemma signed_take_bit_63_wrap:
  fixes d :: int
  assumes "2 ^ 63 < d" and "d < 2 ^ 64"
  shows "signed_take_bit 63 (2 ^ 64 - d) = 2 ^ 64 - d"
  using assms by (intro signed_take_bit_int_eq_self) simp_all

lemma distance_bounds:
  fixes now t :: u64
  assumes "now < t"
  shows "0 < uint t - uint now" and "uint t - uint now < 2 ^ 64"
proof -
  show "0 < uint t - uint now"
    using assms by (simp add: word_less_def)
  have "uint t < 2 ^ 64"
    using uint_bounded [of t] by simp
  moreover have "0 \<le> uint now"
    by simp
  ultimately show "uint t - uint now < 2 ^ 64"
    by linarith
qed

lemma wrapped_signed:
  fixes now t :: u64
  assumes "now < t"
  shows "sint (now - t) =
           (if uint t - uint now \<le> 2 ^ 63 then - (uint t - uint now)
            else 2 ^ 64 - (uint t - uint now))"
proof (cases "uint t - uint now \<le> 2 ^ 63")
  case True
  have "now - t = word_of_int (- (uint t - uint now))"
    by simp
  then have "sint (now - t) = signed_take_bit 63 (- (uint t - uint now))"
    by (simp only: sint_sbintrunc') simp
  also have "\<dots> = - (uint t - uint now)"
    using True distance_bounds(1) [OF assms] by (intro signed_take_bit_63_neg) linarith+
  finally show ?thesis
    using True by simp
next
  case False
  have "now - t = word_of_int (2 ^ 64 - (uint t - uint now))"
    by simp
  then have "sint (now - t) = signed_take_bit 63 (2 ^ 64 - (uint t - uint now))"
    by (simp only: sint_sbintrunc') simp
  also have "\<dots> = 2 ^ 64 - (uint t - uint now)"
    using False distance_bounds(2) [OF assms] by (intro signed_take_bit_63_wrap) linarith+
  finally show ?thesis
    using False by simp
qed


text \<open>
  C9, as amended: the builder neither clamps nor validates \<open>t \<le> monotonicNow\<close>. For a
  record timestamp \<open>t > monotonicNow\<close> the unsigned 64-bit subtraction wraps around: the
  64 bits of the delta are \<open>(monotonicNow - t) mod 2 ^ 64\<close>. The delta is a signed
  64-bit duration, though, and as such it is the negative duration
  \<open>- (t - monotonicNow)\<close> whenever \<open>t - monotonicNow \<le> 2 ^ 63\<close>, and the positive
  \<open>2 ^ 64 - (t - monotonicNow)\<close> beyond; it enters the reconstructed times as it is.
\<close>

theorem delta_past_reference:
  "(now < StartMonoTimeTs m \<longrightarrow>
      uint (startDelta now m) = (uint now - uint (StartMonoTimeTs m)) mod 2 ^ 64 \<and>
      Nanoseconds (startDelta now m) =
        (if uint (StartMonoTimeTs m) - uint now \<le> 2 ^ 63
         then - (uint (StartMonoTimeTs m) - uint now)
         else 2 ^ 64 - (uint (StartMonoTimeTs m) - uint now))) \<and>
   (now < EndMonoTimeTs m \<longrightarrow>
      uint (endDelta now m) = (uint now - uint (EndMonoTimeTs m)) mod 2 ^ 64 \<and>
      Nanoseconds (endDelta now m) =
        (if uint (EndMonoTimeTs m) - uint now \<le> 2 ^ 63
         then - (uint (EndMonoTimeTs m) - uint now)
         else 2 ^ 64 - (uint (EndMonoTimeTs m) - uint now))) \<and>
   (\<forall>r :: ('k, 'md) Record. NewRecord g key (Some m) currentTime now = Inr r \<longrightarrow>
      TimeFlowStart r = Add currentTime (- startDelta now m) \<and>
      TimeFlowEnd r = Add currentTime (- endDelta now m))"
proof -
  have bits: "uint (Duration_of_u64 (now - t)) = (uint now - uint t) mod 2 ^ 64" for t
    by (simp add: Duration_of_u64_def uint_word_ariths)
  have signed: "now < t \<Longrightarrow>
      Nanoseconds (Duration_of_u64 (now - t)) =
        (if uint t - uint now \<le> 2 ^ 63 then - (uint t - uint now)
         else 2 ^ 64 - (uint t - uint now))" for t
    using wrapped_signed [of now t] by (simp only: Nanoseconds_def Duration_of_u64_def)
  have unclamped: "TimeFlowStart r = Add currentTime (- startDelta now m) \<and>
      TimeFlowEnd r = Add currentTime (- endDelta now m)"
    if "NewRecord g key (Some m) currentTime now = Inr r" for r :: "('k, 'md) Record"
  proof (cases "AdditionalMetrics m")
    case None
    with that show ?thesis
      by (auto simp: NewRecord_plain)
  next
    case (Some am)
    with that show ?thesis
      by (auto simp: NewRecord_additional split: if_splits)
  qed
  show ?thesis
    unfolding startDelta_def endDelta_def
    using bits signed unclamped [unfolded startDelta_def endDelta_def]
    by blast
qed

theorem delta_past_reference_witness:
  "Nanoseconds (startDelta 500
     \<lparr>StartMonoTimeTs = 700, EndMonoTimeTs = 9223372036854776509, IfIndexFirstSeen = 3,
      DirectionFirstSeen = 0, AdditionalMetrics = None\<rparr>) = - 200 \<and>
   uint (startDelta 500
     \<lparr>StartMonoTimeTs = 700, EndMonoTimeTs = 9223372036854776509, IfIndexFirstSeen = 3,
      DirectionFirstSeen = 0, AdditionalMetrics = None\<rparr>) = 18446744073709551416 \<and>
   Nanoseconds (endDelta 500
     \<lparr>StartMonoTimeTs = 700, EndMonoTimeTs = 9223372036854776509, IfIndexFirstSeen = 3,
      DirectionFirstSeen = 0, AdditionalMetrics = None\<rparr>) = 9223372036854775607"
  using delta_past_reference [where now = 500 and g = initial_globals and key = "()"
      and currentTime = 1000 and ?'md = unit and m =
     "\<lparr>StartMonoTimeTs = 700, EndMonoTimeTs = 9223372036854776509, IfIndexFirstSeen = 3,
      DirectionFirstSeen = 0, AdditionalMetrics = None\<rparr>"]
  by simp

text \<open>
  The delta is not the wrapped unsigned value: with \<open>monotonicNow = 0\<close> and \<open>t = 1\<close> it
  is the duration of \<open>-1\<close> ns, where \<open>(0 - 1) mod 2 ^ 64\<close> is \<open>2 ^ 64 - 1\<close>.
\<close>

theorem delta_past_reference_counterexample:
  "(0 :: u64) < 1 \<and>
   Nanoseconds (startDelta 0
     \<lparr>StartMonoTimeTs = 1, EndMonoTimeTs = 1, IfIndexFirstSeen = 3,
      DirectionFirstSeen = 0, AdditionalMetrics = None\<rparr>) = - 1 \<and>
   Nanoseconds (startDelta 0
     \<lparr>StartMonoTimeTs = 1, EndMonoTimeTs = 1, IfIndexFirstSeen = 3,
      DirectionFirstSeen = 0, AdditionalMetrics = None\<rparr>)
     \<noteq> (uint (0 :: u64) - uint (1 :: u64)) mod 2 ^ 64"
  by (simp add: startDelta_def Duration_of_u64_def Nanoseconds_def)

section \<open>The builder succeeds on well-formed inputs\<close>

text \<open>
  C10: on a well-formed input, whose count of additional observed interfaces does not
  exceed the capacity 4 of the array, the builder returns a record, and every index the
  loop reads lies within the array: the out-of-range panic is not reached.
\<close>

theorem builder_succeeds:
  assumes "\<forall>am. AdditionalMetrics m = Some am \<longrightarrow>
             length (ObservedIntf am) = MaxObservedInterfaces \<and>
             unat (NbObservedIntf am) \<le> MaxObservedInterfaces"
  shows "(\<exists>r :: ('k, 'md) Record. NewRecord g key (Some m) currentTime now = Inr r) \<and>
         (\<forall>am i. AdditionalMetrics m = Some am \<longrightarrow> i < NbObservedIntf am \<longrightarrow>
            unat i < length (ObservedIntf am))"
proof (cases "AdditionalMetrics m")
  case None
  then show ?thesis
    by (simp add: NewRecord_plain)
next
  case (Some am)
  with assms have "length (ObservedIntf am) = MaxObservedInterfaces"
    and "unat (NbObservedIntf am) \<le> MaxObservedInterfaces"
    by simp_all
  with Some show ?thesis
    by (auto simp: NewRecord_additional word_less_nat_alt)
qed

text \<open>Beyond the capacity the loop does reach the out-of-range index.\<close>

lemma builder_panics_beyond_capacity:
  assumes "AdditionalMetrics m = Some am"
    and "length (ObservedIntf am) = MaxObservedInterfaces"
    and "MaxObservedInterfaces < unat (NbObservedIntf am)"
  shows "NewRecord g key (Some m) currentTime now =
           Inl (IndexOutOfRange MaxObservedInterfaces MaxObservedInterfaces)"
  using assms by (simp add: NewRecord_additional)

theorem builder_succeeds_witness:
  "\<exists>r :: (unit, unit) Record.
     NewRecord initial_globals ()
       (Some \<lparr>StartMonoTimeTs = 100, EndMonoTimeTs = 300, IfIndexFirstSeen = 3,
              DirectionFirstSeen = 0,
              AdditionalMetrics = Some \<lparr>DnsRecord = \<lparr>Latency = 0\<rparr>, FlowRtt = 0,
                ObservedIntf =
                  [\<lparr>BpfObservedIntfT.Direction = 1, IfIndex = 7\<rparr>,
                   \<lparr>BpfObservedIntfT.Direction = 0, IfIndex = 8\<rparr>,
                   \<lparr>BpfObservedIntfT.Direction = 1, IfIndex = 9\<rparr>,
                   \<lparr>BpfObservedIntfT.Direction = 0, IfIndex = 10\<rparr>],
                NbObservedIntf = 4\<rparr>\<rparr>) 1000 500 = Inr r"
proof -
  let ?am = "\<lparr>DnsRecord = \<lparr>Latency = 0\<rparr>, FlowRtt = 0,
                ObservedIntf =
                  [\<lparr>BpfObservedIntfT.Direction = 1, IfIndex = 7\<rparr>,
                   \<lparr>BpfObservedIntfT.Direction = 0, IfIndex = 8\<rparr>,
                   \<lparr>BpfObservedIntfT.Direction = 1, IfIndex = 9\<rparr>,
                   \<lparr>BpfObservedIntfT.Direction = 0, IfIndex = 10\<rparr>],
                NbObservedIntf = 4\<rparr>"
  let ?m = "\<lparr>StartMonoTimeTs = 100, EndMonoTimeTs = 300, IfIndexFirstSeen = 3,
              DirectionFirstSeen = 0, AdditionalMetrics = Some ?am\<rparr>"
  have well_formed: "\<forall>am. AdditionalMetrics ?m = Some am \<longrightarrow>
             length (ObservedIntf am) = MaxObservedInterfaces \<and>
             unat (NbObservedIntf am) \<le> MaxObservedInterfaces"
    by (auto simp: MaxObservedInterfaces_def)
  from builder_succeeds [OF well_formed, of initial_globals "()" 1000 500, where ?'md = unit]
  show ?thesis
    by blast
qed

section \<open>Decoding one raw record\<close>

lemma ReadAtLeast_loop_result:
  assumes "ReadAtLeast_loop min_n r buf = (buf', err, r')" and "length buf \<le> min_n"
  shows "if min_n - length buf \<le> length (supplied r)
         then buf' = buf @ take (min_n - length buf) (supplied r) \<and>
              remaining r' = drop (min_n - length buf) (remaining r)
         else buf' = buf @ supplied r \<and> err = Some (first_error r)"
  using assms
proof (induction min_n r buf rule: ReadAtLeast_loop.induct)
  case (1 min_n r buf)
  show ?case
  proof (cases "length buf < min_n")
    case False
    with "1.prems" show ?thesis
      by (simp add: ReadAtLeast_loop.simps)
  next
    case short: True
    show ?thesis
    proof (cases r)
      case Nil
      with short "1.prems" show ?thesis
        by (simp add: ReadAtLeast_loop.simps)
    next
      case (Cons step rest)
      obtain c e where step: "step = (c, e)"
        by (cases step)
      show ?thesis
      proof (cases "length c \<le> min_n - length buf")
        case False
        then have rd: "Read (min_n - length buf) r = ((take (min_n - length buf) c, None), (drop (min_n - length buf) c, e) # rest)"
          by (simp add: Cons step)
        have full: "length (buf @ take (min_n - length buf) c) = min_n"
          using False short by simp
        from "1.prems"(1) short rd
        have "ReadAtLeast_loop min_n ((drop (min_n - length buf) c, e) # rest) (buf @ take (min_n - length buf) c)
                = (buf', err, r')"
          by (subst (asm) ReadAtLeast_loop.simps) simp
        with full have res: "buf' = buf @ take (min_n - length buf) c"
            "r' = (drop (min_n - length buf) c, e) # rest"
          by (subst (asm) ReadAtLeast_loop.simps, simp)+
        from False have "min_n - length buf \<le> length (supplied r)"
          by (cases e) (simp_all add: Cons step)
        moreover from False have "take (min_n - length buf) (supplied r) = take (min_n - length buf) c"
          by (cases e) (simp_all add: Cons step)
        ultimately show ?thesis
          using res False short by (simp add: remaining_def Cons step)
      next
        case fits: True
        then have rd: "Read (min_n - length buf) r = ((c, e), rest)"
          by (simp add: Cons step)
        show ?thesis
        proof (cases e)
          case (Some err')
          with "1.prems"(1) short rd
          have "buf' = buf @ c" "err = Some err'" "r' = rest"
            by (subst (asm) ReadAtLeast_loop.simps, simp)+
          with fits Some show ?thesis
            by (auto simp: Cons step remaining_def)
        next
          case None
          with "1.prems"(1) short rd
          have rec: "ReadAtLeast_loop min_n rest (buf @ c) = (buf', err, r')"
            by (subst (asm) ReadAtLeast_loop.simps) simp
          have le: "length (buf @ c) \<le> min_n"
            using fits short by simp
          note IH = "1.IH" [OF short rd [symmetric] refl None rec le]
          have sup: "supplied r = c @ supplied rest"
            by (simp add: Cons step None)
          have str: "remaining r = c @ remaining rest"
            by (simp add: Cons step remaining_def)
          have fe: "first_error r = first_error rest"
            by (simp add: Cons step None)
          show ?thesis
          proof (cases "min_n - length buf \<le> length (supplied r)")
            case True
            then have "min_n - length (buf @ c) \<le> length (supplied rest)"
              by (simp add: sup)
            with IH have "buf' = (buf @ c) @ take (min_n - length (buf @ c)) (supplied rest)"
              and "remaining r' = drop (min_n - length (buf @ c)) (remaining rest)"
              by simp_all
            with True fits show ?thesis
              by (simp add: sup str)
          next
            case False
            then have "\<not> min_n - length (buf @ c) \<le> length (supplied rest)"
              by (simp add: sup)
            with IH have "buf' = (buf @ c) @ supplied rest" and "err = Some (first_error rest)"
              by simp_all
            with False show ?thesis
              by (simp add: sup fe)
          qed
        qed
      qed
    qed
  qed
qed


lemma ReadFull_result:
  assumes "ReadFull n r = (buf, err, r')"
  shows "if n \<le> length (supplied r)
         then buf = take n (supplied r) \<and> err = None \<and> remaining r' = drop n (remaining r)
         else buf = supplied r \<and>
              err = Some (if supplied r \<noteq> [] \<and> first_error r = EOF then ErrUnexpectedEOF
                          else first_error r)"
proof -
  obtain buf0 err0 r0 where loop: "ReadAtLeast_loop n r [] = (buf0, err0, r0)"
    by (cases "ReadAtLeast_loop n r []") auto
  note shape = ReadAtLeast_loop_result [OF loop, simplified]
  show ?thesis
  proof (cases "n \<le> length (supplied r)")
    case True
    with shape have "buf0 = take n (supplied r)" and "remaining r0 = drop n (remaining r)"
      by simp_all
    moreover from this True have "n \<le> length buf0"
      by simp
    ultimately show ?thesis
      using assms loop True by (simp add: ReadFull_def)
  next
    case False
    with shape have "buf0 = supplied r" and "err0 = Some (first_error r)"
      by simp_all
    with assms loop False show ?thesis
      by (auto simp: ReadFull_def split: if_splits)
  qed
qed

text \<open>
  C5: the raw binary decoder reads exactly one fixed-size record, decoded in
  little-endian order, and returns an error exactly when the byte source ends or fails
  before a full record is read; the error is the one of the source (its end reported
  as \<^verbatim>\<open>io.ErrUnexpectedEOF\<close> when part of a record had been read), and the record
  is then left at its zero value.
\<close>

theorem raw_decoder:
  assumes "ReadFrom L reader = (fr, err, reader')"
  shows "(err = None \<longleftrightarrow> size_of L \<le> length (supplied reader)) \<and>
         (err = None \<longrightarrow>
            fr = decode L LittleEndian (take (size_of L) (supplied reader)) \<and>
            remaining reader' = drop (size_of L) (remaining reader)) \<and>
         (\<forall>e. err = Some e \<longrightarrow>
            fr = zero_value L \<and>
            e = (if supplied reader \<noteq> [] \<and> first_error reader = EOF then ErrUnexpectedEOF
                 else first_error reader))"
proof -
  obtain bs err0 r0 where full: "ReadFull (size_of L) reader = (bs, err0, r0)"
    by (cases "ReadFull (size_of L) reader") auto
  note shape = ReadFull_result [OF full]
  from assms full have out: "err = err0" "reader' = r0"
      "fr = (case err0 of None \<Rightarrow> decode L LittleEndian bs | Some e \<Rightarrow> zero_value L)"
    by (auto simp: ReadFrom_def binary_Read_def split: option.splits)
  show ?thesis
  proof (cases "size_of L \<le> length (supplied reader)")
    case True
    with shape out show ?thesis
      by simp
  next
    case False
    with shape out show ?thesis
      by simp
  qed
qed

theorem raw_decoder_witness:
  "ReadFrom \<lparr>size_of = 4, decode = Pair, zero_value = (LittleEndian, [])\<rparr>
     [([1, 2], None), ([3, 4, 5], None)]
     = ((LittleEndian, [1, 2, 3, 4]), None, [([5], None)]) \<and>
   ReadFrom \<lparr>size_of = 4, decode = Pair, zero_value = (LittleEndian, [])\<rparr>
     [([1, 2], None)]
     = ((LittleEndian, []), Some ErrUnexpectedEOF, []) \<and>
   ReadFrom \<lparr>size_of = 4, decode = Pair, zero_value = (LittleEndian, [])\<rparr>
     [([1], None), ([2], Some (OtherError ''connection reset''))]
     = ((LittleEndian, []), Some (OtherError ''connection reset''), [])"
proof -
  let ?L = "\<lparr>size_of = 4, decode = Pair, zero_value = (LittleEndian, [])\<rparr>"
  obtain fr1 err1 r1 where one: "ReadFrom ?L [([1, 2], None), ([3, 4, 5], None)] = (fr1, err1, r1)"
    by (cases "ReadFrom ?L [([1, 2], None), ([3, 4, 5], None)]") auto
  obtain fr2 err2 r2 where two: "ReadFrom ?L [([1, 2], None)] = (fr2, err2, r2)"
    by (cases "ReadFrom ?L [([1, 2], None)]") auto
  obtain fr3 err3 r3 where three:
    "ReadFrom ?L [([1], None), ([2], Some (OtherError ''connection reset''))] = (fr3, err3, r3)"
    by (cases "ReadFrom ?L [([1], None), ([2], Some (OtherError ''connection reset''))]") auto
  from raw_decoder [OF one] have "fr1 = (LittleEndian, [1, 2, 3, 4]) \<and> err1 = None"
    by simp
  moreover from one have "r1 = [([5], None)]"
    by (simp add: ReadFrom_def binary_Read_def ReadFull_def ReadAtLeast_loop.simps)
  moreover from raw_decoder [OF two]
  have "fr2 = (LittleEndian, []) \<and> err2 = Some ErrUnexpectedEOF"
    by (cases err2) simp_all
  moreover from two have "r2 = []"
    by (simp add: ReadFrom_def binary_Read_def ReadFull_def ReadAtLeast_loop.simps)
  moreover from raw_decoder [OF three]
  have "fr3 = (LittleEndian, []) \<and> err3 = Some (OtherError ''connection reset'')"
    by (cases err3) simp_all
  moreover from three have "r3 = []"
    by (simp add: ReadFrom_def binary_Read_def ReadFull_def ReadAtLeast_loop.simps)
  ultimately show ?thesis
    using one two three by simp
qed

end
